theory Spec2Isabelle
  imports Complex_Main
begin

section \<open>Kuber AI gold workflow: the embedding\<close>

text \<open>
  The program is the single file \<^verbatim>\<open>kuber_ai_gold_workflow.py\<close>: a keyword classifier, four
  endpoints and two SQLite tables. The tables are the state; every endpoint is a function
  from the database to a result and the database afterwards.

  Numbers. The columns \<^verbatim>\<open>balance\<close>, \<^verbatim>\<open>gold_grams\<close>, \<^verbatim>\<open>amount_inr\<close> and \<^verbatim>\<open>grams\<close> are
  SQLite \<^verbatim>\<open>REAL\<close> and Python \<^verbatim>\<open>float\<close>. They are embedded as exact rationals: \<open>+\<close>, \<open>-\<close>,
  \<open>/\<close> and the comparisons are the exact ones, and \<^verbatim>\<open>round(x, 6)\<close> is rounding to six
  decimals with ties to even, which is what Python's \<^verbatim>\<open>round\<close> computes on the exact value
  of its argument. Binary rounding error, infinities and NaN are outside the embedding.
  What the theorems below state of these numbers is their sign, their order and where
  they are stored: rounding to a double keeps the sign of a result and never moves a sum
  of non-negative terms below a term, so these statements are the same on doubles. No
  theorem states the exact value of a difference, a sum or a rounded quotient for all
  inputs; the concrete runs use amounts whose results print the same on doubles.

  Integers. A Python \<^verbatim>\<open>int\<close> is unbounded and an SQLite \<^verbatim>\<open>INTEGER\<close> has 64 bits: binding
  a user id outside that range to a statement raises \<^verbatim>\<open>OverflowError\<close>, which no endpoint
  handles.

  Text. A Python \<^verbatim>\<open>str\<close> is embedded as a \<open>string\<close>, the bytes of its UTF-8 encoding;
  \<^verbatim>\<open>str.lower\<close> is embedded on the ASCII letters and leaves every other byte alone.
\<close>

subsection \<open>Configuration\<close>

definition GOLD_RATE_PER_GRAM :: rat where
  "GOLD_RATE_PER_GRAM = 6000"

subsection \<open>Python's round\<close>

definition py_round :: "rat \<Rightarrow> int" where
  \<comment> \<open>\<^verbatim>\<open>round(x)\<close>: the nearest integer, a tie going to the even neighbour.\<close>
  "py_round x =
     (let f = \<lfloor>x\<rfloor>; d = x - of_int f
      in if d < 1 / 2 then f else if 1 / 2 < d then f + 1 else if even f then f else f + 1)"

definition round_ndigits :: "rat \<Rightarrow> nat \<Rightarrow> rat" where
  \<comment> \<open>\<^verbatim>\<open>round(x, n)\<close> for \<open>n\<close> decimals.\<close>
  "round_ndigits x n = of_int (py_round (x * 10 ^ n)) / 10 ^ n"

subsection \<open>The tables\<close>

text \<open>
  \<^verbatim>\<open>users(user_id INTEGER PRIMARY KEY AUTOINCREMENT, name TEXT NOT NULL,
  balance REAL DEFAULT 0, gold_grams REAL DEFAULT 0)\<close>. The column \<^verbatim>\<open>balance\<close> may hold
  \<^verbatim>\<open>NULL\<close>: \<^verbatim>\<open>initial_deposit\<close> is \<^verbatim>\<open>Optional[float]\<close> and is inserted as it comes.
  \<^verbatim>\<open>gold_grams\<close> is always inserted as \<^verbatim>\<open>0.0\<close> and only ever added to, so it is a number.
\<close>

record user_row =
  user_id :: int
  name :: string
  balance :: "rat option"
  gold_grams :: rat

text \<open>
  \<^verbatim>\<open>purchases(purchase_id INTEGER PRIMARY KEY AUTOINCREMENT, user_id INTEGER NOT NULL,
  amount_inr REAL NOT NULL, grams REAL NOT NULL, timestamp TEXT NOT NULL)\<close>; the column
  \<^verbatim>\<open>user_id\<close> of this table is the field \<open>purchase_user_id\<close>.
\<close>

record purchase_row =
  purchase_id :: int
  purchase_user_id :: int
  amount_inr :: rat
  grams :: rat
  timestamp :: string

text \<open>
  A table is the list of its rows in insertion order. \<open>users_seq\<close> and \<open>purchases_seq\<close> are
  the two entries of \<^verbatim>\<open>sqlite_sequence\<close> that \<^verbatim>\<open>AUTOINCREMENT\<close> keeps: the largest row id
  handed out so far in each table. No statement of the program deletes a row or inserts
  an explicit id, so the next id is the counter plus one.
\<close>

record db =
  users :: "user_row list"
  users_seq :: int
  purchases :: "purchase_row list"
  purchases_seq :: int

definition init_db :: db where
  \<comment> \<open>\<^verbatim>\<open>CREATE TABLE IF NOT EXISTS\<close> on a fresh \<^verbatim>\<open>data.db\<close>: two empty tables.\<close>
  "init_db = \<lparr>users = [], users_seq = 0, purchases = [], purchases_seq = 0\<rparr>"

subsection \<open>Errors and responses\<close>

datatype detail =
    User_not_found
  | Amount_must_be_greater_than_0
  | Insufficient_balance_Available rat
      \<comment> \<open>\<^verbatim>\<open>f"Insufficient balance. Available: {user['balance']}"\<close>: the interpolated balance\<close>

datatype error =
    HTTPException nat detail   \<comment> \<open>status code and detail\<close>
  | TypeError                  \<comment> \<open>\<^verbatim>\<open>None < float\<close>, unhandled\<close>
  | OverflowError              \<comment> \<open>Python int too large to convert to SQLite INTEGER, unhandled\<close>

datatype message =
    Successfully_purchased rat rat int
      \<comment> \<open>the f-string of \<^verbatim>\<open>purchase_gold\<close>: amount, grams and user id interpolated\<close>

datatype response =
    Create_user_response string int string "rat option"
      \<comment> \<open>status, user_id, name, balance\<close>
  | Get_user_response user_row "purchase_row list"
      \<comment> \<open>user, purchases\<close>
  | Not_gold_response string bool
      \<comment> \<open>response, is_gold_query\<close>
  | Gold_response string string string bool
      \<comment> \<open>response, nudge, next_step, is_gold_query\<close>
  | Purchase_response string message "rat \<times> rat" "user_row option" "purchase_row list"
      \<comment> \<open>status, message, purchase (amount_inr, grams), updated_profile, purchases\<close>
  | Root_response string

subsection \<open>The keyword classifier\<close>

definition GOLD_KEYWORDS :: "string list" where
  "GOLD_KEYWORDS =
     [''gold'', ''digital gold'', ''invest in gold'', ''buy gold'', ''gold investment'',
      ''is gold safe'', ''should i buy gold'']"

definition CANNED_FACTS :: string where
  "CANNED_FACTS =
     ''Gold is traditionally considered a hedge against inflation and currency depreciation. '' @
     ''It tends to preserve value over long periods, though short-term price movements can be volatile.''"

definition lower_char :: "char \<Rightarrow> char" where
  "lower_char c =
     (let n = (of_char c :: nat) in if 65 \<le> n \<and> n \<le> 90 then char_of (n + 32) else c)"

definition lower :: "string \<Rightarrow> string" where
  "lower text = map lower_char text"

fun startswith :: "string \<Rightarrow> string \<Rightarrow> bool" where
  "startswith text [] = True"
| "startswith [] (k # ks) = False"
| "startswith (c # cs) (k # ks) = (c = k \<and> startswith cs ks)"

fun str_in :: "string \<Rightarrow> string \<Rightarrow> bool" where
  \<comment> \<open>\<^verbatim>\<open>kw in text\<close>: \<open>kw\<close> starts at some position of \<open>text\<close>.\<close>
  "str_in kw [] = (kw = [])"
| "str_in kw (c # cs) = (startswith (c # cs) kw \<or> str_in kw cs)"

fun any_keyword_in :: "string list \<Rightarrow> string \<Rightarrow> bool" where
  \<comment> \<open>the \<^verbatim>\<open>for kw in GOLD_KEYWORDS\<close> loop, returning at the first hit\<close>
  "any_keyword_in [] text_lower = False"
| "any_keyword_in (kw # kws) text_lower =
     (if str_in kw text_lower then True else any_keyword_in kws text_lower)"

definition query_is_about_gold :: "string \<Rightarrow> bool" where
  "query_is_about_gold text = (let text_lower = lower text in any_keyword_in GOLD_KEYWORDS text_lower)"

text \<open>
  The spec's side of the case-insensitivity: \<open>upper\<close> and \<open>swapcase\<close> change the letter-case
  of a text. They are not functions of the program.
\<close>

definition upper_char :: "char \<Rightarrow> char" where
  "upper_char c =
     (let n = (of_char c :: nat) in if 97 \<le> n \<and> n \<le> 122 then char_of (n - 32) else c)"

definition upper :: "string \<Rightarrow> string" where
  "upper text = map upper_char text"

definition swapcase :: "string \<Rightarrow> string" where
  "swapcase text = map (\<lambda>c. if lower_char c = c then upper_char c else lower_char c) text"

subsection \<open>Helper functions\<close>

definition fits_int64 :: "int \<Rightarrow> bool" where
  \<comment> \<open>what \<^verbatim>\<open>sqlite3\<close> can bind as an \<^verbatim>\<open>INTEGER\<close> parameter\<close>
  "fits_int64 i \<longleftrightarrow> - 9223372036854775808 \<le> i \<and> i \<le> 9223372036854775807"

definition get_user :: "db \<Rightarrow> int \<Rightarrow> error + user_row option" where
  \<comment> \<open>\<^verbatim>\<open>SELECT * FROM users WHERE user_id = ?\<close>, \<^verbatim>\<open>fetchone\<close>; the bind of \<open>uid\<close> comes first\<close>
  "get_user d uid =
     (if fits_int64 uid then Inr (find (\<lambda>r. user_id r = uid) (users d)) else Inl OverflowError)"

definition update_user_gold_and_balance :: "db \<Rightarrow> int \<Rightarrow> rat \<Rightarrow> rat \<Rightarrow> string \<Rightarrow> db" where
  \<comment> \<open>The \<^verbatim>\<open>UPDATE\<close> touches every row with that id (\<^verbatim>\<open>NULL - x\<close> is \<^verbatim>\<open>NULL\<close>); the
     \<^verbatim>\<open>INSERT\<close> appends one row with the next id. \<open>now\<close> is \<^verbatim>\<open>utcnow().isoformat()\<close>.\<close>
  "update_user_gold_and_balance d uid g amt now =
     d\<lparr>users :=
          map (\<lambda>r. if user_id r = uid
                    then r\<lparr>balance := map_option (\<lambda>b. b - amt) (balance r),
                           gold_grams := gold_grams r + g\<rparr>
                    else r) (users d),
        purchases :=
          purchases d @
            [\<lparr>purchase_id = purchases_seq d + 1, purchase_user_id = uid, amount_inr = amt,
              grams = g, timestamp = now\<rparr>],
        purchases_seq := purchases_seq d + 1\<rparr>"

definition get_purchases_for_user :: "db \<Rightarrow> int \<Rightarrow> purchase_row list" where
  \<comment> \<open>\<^verbatim>\<open>SELECT * FROM purchases WHERE user_id = ? ORDER BY purchase_id DESC\<close>. Both callers
     have passed the same id through \<open>get_user\<close> before, so the bind cannot fail here.\<close>
  "get_purchases_for_user d uid =
     rev (sort_key purchase_id (filter (\<lambda>p. purchase_user_id p = uid) (purchases d)))"

subsection \<open>Endpoints\<close>

definition create_user :: "db \<Rightarrow> string \<Rightarrow> rat option \<Rightarrow> (error + response) \<times> db" where
  "create_user d nm initial_deposit =
     (let new_id = users_seq d + 1;
          d' = d\<lparr>users := users d @
                     [\<lparr>user_id = new_id, name = nm, balance = initial_deposit, gold_grams = 0\<rparr>],
                 users_seq := new_id\<rparr>
      in (Inr (Create_user_response ''success'' new_id nm initial_deposit), d'))"

definition get_user_endpoint :: "db \<Rightarrow> int \<Rightarrow> (error + response) \<times> db" where
  "get_user_endpoint d uid =
     (case get_user d uid of
        Inl e \<Rightarrow> (Inl e, d)
      | Inr None \<Rightarrow> (Inl (HTTPException 404 User_not_found), d)
      | Inr (Some user) \<Rightarrow> (Inr (Get_user_response user (get_purchases_for_user d uid)), d))"

definition not_gold_text :: string where
  "not_gold_text =
     ''I couldn't detect that your question is about gold investment. '' @
     ''If you want to learn about gold investments, try asking 'Should I invest in gold?' or 'How to buy digital gold?'' @
     [CHR 0x27]"

definition nudge_text :: string where
  \<comment> \<open>the rupee sign U+20B9 is the three bytes E2 82 B9\<close>
  "nudge_text =
     ''If you'd like, I can help you invest in digital gold through the Simplify Money flow. '' @
     ''A small test purchase (e.g., '' @ [CHR 0xE2, CHR 0x82, CHR 0xB9] @
     ''10) is a great way to see how it works. Would you like to proceed?''"

definition gold_assistant :: "db \<Rightarrow> int \<Rightarrow> string \<Rightarrow> (error + response) \<times> db" where
  "gold_assistant d uid query =
     (case get_user d uid of
        Inl e \<Rightarrow> (Inl e, d)
      | Inr None \<Rightarrow> (Inl (HTTPException 404 User_not_found), d)
      | Inr (Some user) \<Rightarrow>
          (let is_gold = query_is_about_gold query
           in if \<not> is_gold then (Inr (Not_gold_response not_gold_text False), d)
              else (Inr (Gold_response CANNED_FACTS nudge_text ''/purchase-gold'' True), d)))"

definition purchase_gold :: "db \<Rightarrow> string \<Rightarrow> int \<Rightarrow> rat \<Rightarrow> (error + response) \<times> db" where
  "purchase_gold d now uid amt =
     (case get_user d uid of
        Inl e \<Rightarrow> (Inl e, d)
      | Inr None \<Rightarrow> (Inl (HTTPException 404 User_not_found), d)
      | Inr (Some user) \<Rightarrow>
          if amt \<le> 0 then (Inl (HTTPException 400 Amount_must_be_greater_than_0), d)
          else (case balance user of
                  None \<Rightarrow> (Inl TypeError, d)
                | Some b \<Rightarrow>
                    if b < amt then (Inl (HTTPException 400 (Insufficient_balance_Available b)), d)
                    else
                      (let g = round_ndigits (amt / GOLD_RATE_PER_GRAM) 6;
                           d' = update_user_gold_and_balance d uid g amt now
                       in (case get_user d' uid of
                             Inl e \<Rightarrow> (Inl e, d')
                           | Inr updated_user \<Rightarrow>
                               (let ps = get_purchases_for_user d' uid
                                in (Inr (Purchase_response ''success''
                                           (Successfully_purchased amt g uid) (amt, g)
                                           updated_user ps), d'))))))"

definition root :: "db \<Rightarrow> (error + response) \<times> db" where
  "root d = (Inr (Root_response ''Kuber AI Gold Workflow API running. See /docs for Swagger UI.''), d)"

subsection \<open>Requests and runs\<close>

text \<open>
  A request to the HTTP surface; \<open>Purchase_gold\<close> carries the clock reading that its ledger
  row records. \<open>handle\<close> dispatches one request, \<open>run\<close> a sequence of them from a database,
  whatever each one answers.
\<close>

datatype request =
    Create_user string "rat option"
  | Get_user int
  | Gold_assistant int string
  | Purchase_gold string int rat
  | Root

fun handle :: "db \<Rightarrow> request \<Rightarrow> (error + response) \<times> db" where
  "handle d (Create_user nm dep) = create_user d nm dep"
| "handle d (Get_user uid) = get_user_endpoint d uid"
| "handle d (Gold_assistant uid q) = gold_assistant d uid q"
| "handle d (Purchase_gold now uid amt) = purchase_gold d now uid amt"
| "handle d Root = root d"

fun run :: "db \<Rightarrow> request list \<Rightarrow> db" where
  "run d [] = d"
| "run d (r # rs) = run (snd (handle d r)) rs"

subsection \<open>Well-formed databases and the purchases of a run\<close>

text \<open>
  What SQLite and \<open>AUTOINCREMENT\<close> keep and the program never breaks: user ids are
  distinct and at most the counter, purchase ids increase along the table and are at most
  their counter, and every ledger row belongs to a user of the table.
\<close>

definition wf :: "db \<Rightarrow> bool" where
  "wf d \<longleftrightarrow>
     distinct (map user_id (users d)) \<and>
     (\<forall>i \<in> set (map user_id (users d)). i \<le> users_seq d) \<and>
     sorted_wrt (<) (map purchase_id (purchases d)) \<and>
     (\<forall>p \<in> set (purchases d).
        purchase_id p \<le> purchases_seq d \<and> purchase_user_id p \<in> set (map user_id (users d)))"

text \<open>
  The spec's side of the ledger property: the amount and the grams of every purchase
  request of a run that is made for user \<open>uid\<close> and succeeds, in the order of the requests.
\<close>

fun purchase_of :: "db \<Rightarrow> request \<Rightarrow> int \<Rightarrow> (rat \<times> rat) list" where
  "purchase_of d (Purchase_gold now v amt) uid =
     (if v = uid \<and> (case fst (purchase_gold d now v amt) of Inr r \<Rightarrow> True | Inl e \<Rightarrow> False)
      then [(amt, round_ndigits (amt / GOLD_RATE_PER_GRAM) 6)] else [])"
| "purchase_of d (Create_user nm dep) uid = []"
| "purchase_of d (Get_user v) uid = []"
| "purchase_of d (Gold_assistant v q) uid = []"
| "purchase_of d Root uid = []"

fun successes :: "db \<Rightarrow> request list \<Rightarrow> int \<Rightarrow> (rat \<times> rat) list" where
  "successes d [] uid = []"
| "successes d (r # rs) uid = purchase_of d r uid @ successes (snd (handle d r)) rs uid"

definition ledger_of :: "db \<Rightarrow> int \<Rightarrow> (rat \<times> rat) list" where
  \<comment> \<open>amount and grams of the ledger rows of a user, oldest first\<close>
  "ledger_of d uid =
     map (\<lambda>p. (amount_inr p, grams p)) (filter (\<lambda>p. purchase_user_id p = uid) (purchases d))"

text \<open>
  A create-user request whose deposit, when it is a number, is not negative. An omitted
  deposit arrives as \<open>Some 0\<close> (the default), an explicit \<^verbatim>\<open>null\<close> as \<open>None\<close>.
\<close>

fun deposit_nonneg :: "request \<Rightarrow> bool" where
  "deposit_nonneg (Create_user nm (Some dep)) = (0 \<le> dep)"
| "deposit_nonneg (Create_user nm None) = True"
| "deposit_nonneg (Get_user v) = True"
| "deposit_nonneg (Gold_assistant v q) = True"
| "deposit_nonneg (Purchase_gold now v amt) = True"
| "deposit_nonneg Root = True"

section \<open>The classifier\<close>

lemma startswith_iff: "startswith t kw \<longleftrightarrow> (\<exists>ss. t = kw @ ss)"
  by (induction t kw rule: startswith.induct) auto

lemma str_in_iff: "str_in kw t \<longleftrightarrow> (\<exists>ps ss. t = ps @ kw @ ss)"
proof (induction t)
  case Nil
  show ?case by auto
next
  case (Cons c cs)
  have "(\<exists>ps ss. c # cs = ps @ kw @ ss) \<longleftrightarrow>
        (\<exists>ss. c # cs = kw @ ss) \<or> (\<exists>ps ss. cs = ps @ kw @ ss)"
  proof
    assume "\<exists>ps ss. c # cs = ps @ kw @ ss"
    then obtain ps ss where e: "c # cs = ps @ kw @ ss" by blast
    show "(\<exists>ss. c # cs = kw @ ss) \<or> (\<exists>ps ss. cs = ps @ kw @ ss)"
    proof (cases ps)
      case Nil
      with e show ?thesis by auto
    next
      case (Cons p ps')
      with e have "cs = ps' @ kw @ ss" by simp
      then show ?thesis by blast
    qed
  next
    assume "(\<exists>ss. c # cs = kw @ ss) \<or> (\<exists>ps ss. cs = ps @ kw @ ss)"
    then show "\<exists>ps ss. c # cs = ps @ kw @ ss"
    proof
      assume "\<exists>ss. c # cs = kw @ ss"
      then obtain ss where "c # cs = [] @ kw @ ss" by auto
      then show ?thesis by blast
    next
      assume "\<exists>ps ss. cs = ps @ kw @ ss"
      then obtain ps ss where "c # cs = (c # ps) @ kw @ ss" by auto
      then show ?thesis by blast
    qed
  qed
  with Cons show ?case by (simp add: startswith_iff)
qed

lemma any_keyword_in_iff: "any_keyword_in kws t \<longleftrightarrow> (\<exists>kw \<in> set kws. str_in kw t)"
  by (induction kws) auto

lemma lower_char_idem: "lower_char (lower_char c) = lower_char c"
  by (auto simp: lower_char_def Let_def)

lemma lower_upper_char: "lower_char (upper_char c) = lower_char c"
  by (auto simp: lower_char_def upper_char_def Let_def)

lemma lower_lower: "lower (lower s) = lower s"
  by (simp add: lower_def lower_char_idem)

lemma lower_upper: "lower (upper s) = lower s"
  by (simp add: lower_def upper_def lower_upper_char)

lemma lower_swapcase: "lower (swapcase s) = lower s"
  by (simp add: lower_def swapcase_def lower_upper_char lower_char_idem)

lemma query_is_about_gold_lower:
  "lower s = lower t \<Longrightarrow> query_is_about_gold s = query_is_about_gold t"
  by (simp add: query_is_about_gold_def)

text \<open>
  Claim C7. The classifier lower-cases its input and answers true exactly when a member
  of the fixed keyword list occurs in the lowered text as a contiguous substring; it says
  yes to "Should I buy gold?" and no to "What's the weather?"; and its answer does not
  change when the letter-case of the input changes: two texts with the same lower-casing
  get the same answer, and so do a text and its lower-cased, upper-cased or case-swapped
  form. Being a HOL function, it is total and depends on the text alone.
\<close>

theorem query_is_about_gold_spec:
  "GOLD_KEYWORDS =
     [''gold'', ''digital gold'', ''invest in gold'', ''buy gold'', ''gold investment'',
      ''is gold safe'', ''should i buy gold''] \<and>
   (query_is_about_gold t \<longleftrightarrow>
      (\<exists>kw \<in> set GOLD_KEYWORDS. \<exists>ps ss. lower t = ps @ kw @ ss)) \<and>
   query_is_about_gold ''Should I buy gold?'' \<and>
   \<not> query_is_about_gold ''What's the weather?'' \<and>
   (lower s = lower t \<longrightarrow> query_is_about_gold s = query_is_about_gold t) \<and>
   query_is_about_gold (lower t) = query_is_about_gold t \<and>
   query_is_about_gold (upper t) = query_is_about_gold t \<and>
   query_is_about_gold (swapcase t) = query_is_about_gold t"
proof -
  have a: "query_is_about_gold t \<longleftrightarrow>
      (\<exists>kw \<in> set GOLD_KEYWORDS. \<exists>ps ss. lower t = ps @ kw @ ss)"
    by (simp only: query_is_about_gold_def Let_def any_keyword_in_iff str_in_iff)
  have b: "query_is_about_gold ''Should I buy gold?''" by code_simp
  have c: "\<not> query_is_about_gold ''What's the weather?''" by code_simp
  have d: "lower s = lower t \<longrightarrow> query_is_about_gold s = query_is_about_gold t"
    by (rule impI) (rule query_is_about_gold_lower)
  have e: "query_is_about_gold (lower t) = query_is_about_gold t"
    by (rule query_is_about_gold_lower) (rule lower_lower)
  have f: "query_is_about_gold (upper t) = query_is_about_gold t"
    by (rule query_is_about_gold_lower) (rule lower_upper)
  have g: "query_is_about_gold (swapcase t) = query_is_about_gold t"
    by (rule query_is_about_gold_lower) (rule lower_swapcase)
  have k: "GOLD_KEYWORDS =
     [''gold'', ''digital gold'', ''invest in gold'', ''buy gold'', ''gold investment'',
      ''is gold safe'', ''should i buy gold'']"
    by (fact GOLD_KEYWORDS_def)
  show ?thesis
    by (intro conjI) (fact k a b c d e f g)+
qed

theorem query_is_about_gold_spec_witness:
  "lower ''Is GOLD safe?'' = lower ''is gold SAFE?'' \<and>
   query_is_about_gold ''Is GOLD safe?'' = query_is_about_gold ''is gold SAFE?'' \<and>
   query_is_about_gold ''is gold SAFE?'' \<and>
   (\<exists>kw \<in> set GOLD_KEYWORDS. \<exists>ps ss. lower ''is gold SAFE?'' = ps @ kw @ ss)"
proof -
  have h: "lower ''Is GOLD safe?'' = lower ''is gold SAFE?''" by code_simp
  have q: "query_is_about_gold ''is gold SAFE?''" by code_simp
  note spec = query_is_about_gold_spec [of "''is gold SAFE?''" "''Is GOLD safe?''"]
  have i: "query_is_about_gold ''is gold SAFE?'' \<longleftrightarrow>
      (\<exists>kw \<in> set GOLD_KEYWORDS. \<exists>ps ss. lower ''is gold SAFE?'' = ps @ kw @ ss)"
    using spec by (elim conjE)
  have j: "lower ''Is GOLD safe?'' = lower ''is gold SAFE?'' \<longrightarrow>
      query_is_about_gold ''Is GOLD safe?'' = query_is_about_gold ''is gold SAFE?''"
    using spec by (elim conjE)
  from j h have "query_is_about_gold ''Is GOLD safe?'' = query_is_about_gold ''is gold SAFE?''"
    by (rule mp)
  moreover from i q
  have "\<exists>kw \<in> set GOLD_KEYWORDS. \<exists>ps ss. lower ''is gold SAFE?'' = ps @ kw @ ss"
    by (rule iffD1)
  ultimately show ?thesis using h q by (intro conjI)
qed

section \<open>One purchase\<close>

lemma find_map_same_key:
  assumes "\<And>r. P (f r) = P r"
  shows "find P (map f xs) = map_option f (find P xs)"
  using assms by (induction xs) auto

lemma find_SomeD: "find P xs = Some r \<Longrightarrow> P r"
  by (induction xs) (auto split: if_splits)

lemma get_user_Inr_iff:
  "get_user d uid = Inr x \<longleftrightarrow> fits_int64 uid \<and> find (\<lambda>r. user_id r = uid) (users d) = x"
  by (auto simp: get_user_def)

lemma get_user_overflow: "\<not> fits_int64 uid \<Longrightarrow> get_user d uid = Inl OverflowError"
  by (simp add: get_user_def)

lemma get_user_None:
  "fits_int64 uid \<Longrightarrow> uid \<notin> set (map user_id (users d)) \<Longrightarrow> get_user d uid = Inr None"
  by (auto simp: get_user_def find_None_iff)

lemma get_user_Some:
  assumes "fits_int64 uid" and "uid \<in> set (map user_id (users d))"
  shows "\<exists>u. get_user d uid = Inr (Some u)"
proof (cases "find (\<lambda>r. user_id r = uid) (users d)")
  case None
  with assms(2) show ?thesis by (auto simp: find_None_iff)
next
  case (Some u)
  with assms(1) show ?thesis by (simp add: get_user_def)
qed

lemma find_update:
  "find (\<lambda>r. user_id r = v) (users (update_user_gold_and_balance d uid g amt now)) =
     (if v = uid
      then map_option (\<lambda>r. r\<lparr>balance := map_option (\<lambda>b. b - amt) (balance r),
                                gold_grams := gold_grams r + g\<rparr>)
             (find (\<lambda>r. user_id r = uid) (users d))
      else find (\<lambda>r. user_id r = v) (users d))"
proof -
  define f where "f = (\<lambda>r::user_row. if user_id r = uid
                    then r\<lparr>balance := map_option (\<lambda>b. b - amt) (balance r),
                           gold_grams := gold_grams r + g\<rparr>
                    else r)"
  have k: "\<And>r. (user_id (f r) = v) = (user_id r = v)" by (simp add: f_def)
  have u: "users (update_user_gold_and_balance d uid g amt now) = map f (users d)"
    by (simp add: update_user_gold_and_balance_def f_def)
  have e: "find (\<lambda>r. user_id r = v) (users (update_user_gold_and_balance d uid g amt now)) =
        map_option f (find (\<lambda>r. user_id r = v) (users d))"
    unfolding u by (rule find_map_same_key) (rule k)
  show ?thesis
  proof (cases "find (\<lambda>r. user_id r = v) (users d)")
    case None
    with e show ?thesis by auto
  next
    case (Some r)
    then have "user_id r = v" by (rule find_SomeD)
    with e Some show ?thesis by (auto simp: f_def)
  qed
qed

lemma get_user_update_other:
  "v \<noteq> uid \<Longrightarrow> get_user (update_user_gold_and_balance d uid g amt now) v = get_user d v"
  by (simp add: get_user_def find_update)

lemma get_user_update_same:
  assumes "get_user d uid = Inr (Some u)"
  shows "get_user (update_user_gold_and_balance d uid g amt now) uid =
           Inr (Some (u\<lparr>balance := map_option (\<lambda>b. b - amt) (balance u),
                         gold_grams := gold_grams u + g\<rparr>))"
  using assms by (simp add: get_user_Inr_iff find_update)

lemma purchases_update:
  "purchases (update_user_gold_and_balance d uid g amt now) =
     purchases d @
       [\<lparr>purchase_id = purchases_seq d + 1, purchase_user_id = uid, amount_inr = amt,
         grams = g, timestamp = now\<rparr>]"
  by (simp add: update_user_gold_and_balance_def)

lemma purchase_gold_success:
  assumes "get_user d uid = Inr (Some u)" "balance u = Some b" "0 < amt" "amt \<le> b"
  shows "purchase_gold d now uid amt =
           (Inr (Purchase_response ''success''
                   (Successfully_purchased amt (round_ndigits (amt / 6000) 6) uid)
                   (amt, round_ndigits (amt / 6000) 6)
                   (Some (u\<lparr>balance := Some (b - amt),
                            gold_grams := gold_grams u + round_ndigits (amt / 6000) 6\<rparr>))
                   (get_purchases_for_user
                      (update_user_gold_and_balance d uid (round_ndigits (amt / 6000) 6) amt now) uid)),
            update_user_gold_and_balance d uid (round_ndigits (amt / 6000) 6) amt now)"
proof -
  have "get_user (update_user_gold_and_balance d uid (round_ndigits (amt / 6000) 6) amt now) uid =
          Inr (Some (u\<lparr>balance := Some (b - amt),
                        gold_grams := gold_grams u + round_ndigits (amt / 6000) 6\<rparr>))"
    using get_user_update_same [OF assms(1)] assms(2) by simp
  with assms show ?thesis
    unfolding purchase_gold_def GOLD_RATE_PER_GRAM_def Let_def by simp
qed

lemma purchase_gold_Inr:
  assumes "fst (purchase_gold d now uid amt) = Inr r"
  shows "\<exists>u b. get_user d uid = Inr (Some u) \<and> balance u = Some b \<and> 0 < amt \<and> amt \<le> b"
proof (cases "get_user d uid")
  case (Inl e)
  with assms show ?thesis by (simp add: purchase_gold_def)
next
  case (Inr x)
  show ?thesis
  proof (cases x)
    case None
    with Inr assms show ?thesis by (simp add: purchase_gold_def)
  next
    case (Some u)
    show ?thesis
    proof (cases "balance u")
      case None
      with Some Inr assms show ?thesis by (simp add: purchase_gold_def split: if_splits)
    next
      case b: (Some b)
      have "0 < amt \<and> amt \<le> b"
      proof (rule ccontr)
        assume "\<not> (0 < amt \<and> amt \<le> b)"
        with b Some Inr assms show False
          by (auto simp: purchase_gold_def split: if_splits)
      qed
      with b Some Inr show ?thesis by simp
    qed
  qed
qed

text \<open>
  Claim C3. For an existing user whose balance is \<open>b\<close>: an amount \<open>amt > 0\<close> with \<open>b < amt\<close>
  is refused with status 400 and the insufficient-balance detail, which carries the
  balance \<open>b\<close>, and the database is returned as it was; when \<open>amt \<le> b\<close> the answer is never
  the insufficient-balance failure, and a positive amount equal to the balance succeeds.
\<close>

theorem purchase_insufficient_balance:
  assumes "get_user d uid = Inr (Some u)" and "balance u = Some b"
  shows "(0 < amt \<and> b < amt \<longrightarrow>
            purchase_gold d now uid amt =
              (Inl (HTTPException 400 (Insufficient_balance_Available b)), d)) \<and>
         (amt \<le> b \<longrightarrow>
            (\<forall>c x. fst (purchase_gold d now uid amt) \<noteq>
                     Inl (HTTPException c (Insufficient_balance_Available x)))) \<and>
         (0 < amt \<and> amt = b \<longrightarrow> (\<exists>r. fst (purchase_gold d now uid amt) = Inr r))"
proof (intro conjI impI)
  assume "0 < amt \<and> b < amt"
  with assms show "purchase_gold d now uid amt =
      (Inl (HTTPException 400 (Insufficient_balance_Available b)), d)"
    by (simp add: purchase_gold_def)
next
  assume le: "amt \<le> b"
  show "\<forall>c x. fst (purchase_gold d now uid amt) \<noteq>
                Inl (HTTPException c (Insufficient_balance_Available x))"
  proof (cases "amt \<le> 0")
    case True
    with assms show ?thesis by (simp add: purchase_gold_def)
  next
    case False
    with assms le show ?thesis by (simp add: purchase_gold_success)
  qed
next
  assume "0 < amt \<and> amt = b"
  with assms show "\<exists>r. fst (purchase_gold d now uid amt) = Inr r"
    by (simp add: purchase_gold_success)
qed

theorem purchase_insufficient_balance_witness:
  "get_user (snd (create_user init_db ''asha'' (Some 40))) 1 =
     Inr (Some \<lparr>user_id = 1, name = ''asha'', balance = Some 40, gold_grams = 0\<rparr>) \<and>
   (0::rat) < 60 \<and> (40::rat) < 60 \<and>
   purchase_gold (snd (create_user init_db ''asha'' (Some 40))) ''2025-01-01T00:00:00'' 1 60 =
     (Inl (HTTPException 400 (Insufficient_balance_Available 40)),
      snd (create_user init_db ''asha'' (Some 40))) \<and>
   (0::rat) < 40 \<and> (40::rat) \<le> 40 \<and>
   (\<forall>c x. fst (purchase_gold (snd (create_user init_db ''asha'' (Some 40)))
                  ''2025-01-01T00:00:00'' 1 40) \<noteq>
            Inl (HTTPException c (Insufficient_balance_Available x))) \<and>
   (\<exists>r. fst (purchase_gold (snd (create_user init_db ''asha'' (Some 40)))
                ''2025-01-01T00:00:00'' 1 40) = Inr r)"
proof -
  let ?d = "snd (create_user init_db ''asha'' (Some 40))"
  let ?u = "\<lparr>user_id = 1, name = ''asha'', balance = Some 40, gold_grams = 0\<rparr>"
  have h1: "get_user ?d 1 = Inr (Some ?u)" by code_simp
  have h2: "balance ?u = Some 40" by simp
  from purchase_insufficient_balance [OF h1 h2, of 60 "''2025-01-01T00:00:00''"]
  have a: "purchase_gold ?d ''2025-01-01T00:00:00'' 1 60 =
     (Inl (HTTPException 400 (Insufficient_balance_Available 40)), ?d)"
    by simp
  from purchase_insufficient_balance [OF h1 h2, of 40 "''2025-01-01T00:00:00''"]
  have b: "(\<forall>c x. fst (purchase_gold ?d ''2025-01-01T00:00:00'' 1 40) \<noteq>
            Inl (HTTPException c (Insufficient_balance_Available x))) \<and>
     (\<exists>r. fst (purchase_gold ?d ''2025-01-01T00:00:00'' 1 40) = Inr r)"
    by simp
  from h1 a b show ?thesis by simp
qed

text \<open>
  Claim C4, as the code has it. The lookup of the user comes first: for an amount
  \<open>amt \<le> 0\<close> the purchase fails and returns the database as it was. The failure is status
  400 with the invalid-amount detail when the user id is the id of an account; status 404
  with the user-not-found detail when the id fits the 64 bits of an SQLite integer and is
  the id of no account; and the unhandled \<^verbatim>\<open>OverflowError\<close> of the bind when the id does
  not fit.
\<close>

theorem purchase_invalid_amount:
  assumes "amt \<le> 0"
  shows "snd (purchase_gold d now uid amt) = d \<and>
         (fits_int64 uid \<and> uid \<in> set (map user_id (users d)) \<longrightarrow>
            fst (purchase_gold d now uid amt) =
              Inl (HTTPException 400 Amount_must_be_greater_than_0)) \<and>
         (fits_int64 uid \<and> uid \<notin> set (map user_id (users d)) \<longrightarrow>
            fst (purchase_gold d now uid amt) = Inl (HTTPException 404 User_not_found)) \<and>
         (\<not> fits_int64 uid \<longrightarrow> fst (purchase_gold d now uid amt) = Inl OverflowError)"
proof (intro conjI impI)
  show "snd (purchase_gold d now uid amt) = d"
    using assms by (simp add: purchase_gold_def split: sum.splits option.splits)
next
  assume "fits_int64 uid \<and> uid \<in> set (map user_id (users d))"
  then obtain u where "get_user d uid = Inr (Some u)" using get_user_Some by blast
  with assms show "fst (purchase_gold d now uid amt) =
      Inl (HTTPException 400 Amount_must_be_greater_than_0)"
    by (simp add: purchase_gold_def)
next
  assume "fits_int64 uid \<and> uid \<notin> set (map user_id (users d))"
  then have "get_user d uid = Inr None" by (simp add: get_user_None)
  then show "fst (purchase_gold d now uid amt) = Inl (HTTPException 404 User_not_found)"
    by (simp add: purchase_gold_def)
next
  assume "\<not> fits_int64 uid"
  then have "get_user d uid = Inl OverflowError" by (rule get_user_overflow)
  then show "fst (purchase_gold d now uid amt) = Inl OverflowError"
    by (simp add: purchase_gold_def)
qed

theorem purchase_invalid_amount_witness:
  "(- 5::rat) \<le> 0 \<and>
   map user_id (users (snd (create_user init_db ''asha'' (Some 40)))) = [1] \<and>
   fits_int64 1 \<and> fits_int64 2 \<and> \<not> fits_int64 9223372036854775808 \<and>
   purchase_gold (snd (create_user init_db ''asha'' (Some 40))) ''2025-01-01T00:00:00'' 1 (- 5) =
     (Inl (HTTPException 400 Amount_must_be_greater_than_0),
      snd (create_user init_db ''asha'' (Some 40))) \<and>
   purchase_gold (snd (create_user init_db ''asha'' (Some 40))) ''2025-01-01T00:00:00'' 2 (- 5) =
     (Inl (HTTPException 404 User_not_found), snd (create_user init_db ''asha'' (Some 40))) \<and>
   purchase_gold (snd (create_user init_db ''asha'' (Some 40))) ''2025-01-01T00:00:00''
       9223372036854775808 (- 5) =
     (Inl OverflowError, snd (create_user init_db ''asha'' (Some 40)))"
proof -
  let ?d = "snd (create_user init_db ''asha'' (Some 40))"
  have h: "(- 5::rat) \<le> 0" by simp
  have ids: "map user_id (users ?d) = [1]" by (simp add: create_user_def init_db_def)
  have f1: "fits_int64 1" and f2: "fits_int64 2" and f3: "\<not> fits_int64 9223372036854775808"
    by (simp_all add: fits_int64_def)
  from purchase_invalid_amount [OF h, of ?d "''2025-01-01T00:00:00''" 1] f1 ids
  have a: "purchase_gold ?d ''2025-01-01T00:00:00'' 1 (- 5) =
     (Inl (HTTPException 400 Amount_must_be_greater_than_0), ?d)"
    by (simp add: prod_eq_iff)
  from purchase_invalid_amount [OF h, of ?d "''2025-01-01T00:00:00''" 2] f2 ids
  have b: "purchase_gold ?d ''2025-01-01T00:00:00'' 2 (- 5) =
     (Inl (HTTPException 404 User_not_found), ?d)"
    by (simp add: prod_eq_iff)
  from purchase_invalid_amount [OF h, of ?d "''2025-01-01T00:00:00''" 9223372036854775808] f3
  have c: "purchase_gold ?d ''2025-01-01T00:00:00'' 9223372036854775808 (- 5) =
     (Inl OverflowError, ?d)"
    by (simp add: prod_eq_iff)
  from h ids f1 f2 f3 a b c show ?thesis by (intro conjI)
qed

text \<open>
  The claim as the spec words it fails on a user id that resolves to no account: the
  answer there is the not-found failure, not the invalid-amount one.
\<close>

theorem purchase_invalid_amount_counterexample:
  "(- 5::rat) \<le> 0 \<and>
   fst (purchase_gold init_db ''2025-01-01T00:00:00'' 7 (- 5)) =
     Inl (HTTPException 404 User_not_found) \<and>
   fst (purchase_gold init_db ''2025-01-01T00:00:00'' 7 (- 5)) \<noteq>
     Inl (HTTPException 400 Amount_must_be_greater_than_0)"
proof -
  have "get_user init_db 7 = Inr None" by code_simp
  then show ?thesis by (simp add: purchase_gold_def)
qed

text \<open>
  Claim C5, as the code has it. For a user id that fits the 64 bits of an SQLite integer
  and is the id of no account, whatever the amount, the purchase fails with status 404
  and the user-not-found detail and returns the database as it was: no ledger row is
  created and no account is modified. A user id that does not fit fails earlier, in the
  bind of the lookup, with the unhandled \<^verbatim>\<open>OverflowError\<close>, the database again as it was.
\<close>

theorem purchase_user_not_found:
  "(fits_int64 uid \<and> uid \<notin> set (map user_id (users d)) \<longrightarrow>
      purchase_gold d now uid amt = (Inl (HTTPException 404 User_not_found), d)) \<and>
   (\<not> fits_int64 uid \<longrightarrow> purchase_gold d now uid amt = (Inl OverflowError, d))"
proof (intro conjI impI)
  assume "fits_int64 uid \<and> uid \<notin> set (map user_id (users d))"
  then have "get_user d uid = Inr None" by (simp add: get_user_None)
  then show "purchase_gold d now uid amt = (Inl (HTTPException 404 User_not_found), d)"
    by (simp add: purchase_gold_def)
next
  assume "\<not> fits_int64 uid"
  then have "get_user d uid = Inl OverflowError" by (rule get_user_overflow)
  then show "purchase_gold d now uid amt = (Inl OverflowError, d)"
    by (simp add: purchase_gold_def)
qed

theorem purchase_user_not_found_witness:
  "map user_id (users (snd (create_user init_db ''asha'' (Some 40)))) = [1] \<and>
   fits_int64 2 \<and> \<not> fits_int64 (- 9223372036854775809) \<and>
   purchase_gold (snd (create_user init_db ''asha'' (Some 40))) ''2025-01-01T00:00:00'' 2 10 =
     (Inl (HTTPException 404 User_not_found), snd (create_user init_db ''asha'' (Some 40))) \<and>
   purchase_gold (snd (create_user init_db ''asha'' (Some 40))) ''2025-01-01T00:00:00''
       (- 9223372036854775809) 10 =
     (Inl OverflowError, snd (create_user init_db ''asha'' (Some 40)))"
proof -
  let ?d = "snd (create_user init_db ''asha'' (Some 40))"
  have ids: "map user_id (users ?d) = [1]" by (simp add: create_user_def init_db_def)
  have f2: "fits_int64 2" and f3: "\<not> fits_int64 (- 9223372036854775809)"
    by (simp_all add: fits_int64_def)
  from purchase_user_not_found [of 2 ?d "''2025-01-01T00:00:00''" 10] f2 ids
  have a: "purchase_gold ?d ''2025-01-01T00:00:00'' 2 10 =
     (Inl (HTTPException 404 User_not_found), ?d)"
    by simp
  from purchase_user_not_found [of "- 9223372036854775809" ?d "''2025-01-01T00:00:00''" 10] f3
  have b: "purchase_gold ?d ''2025-01-01T00:00:00'' (- 9223372036854775809) 10 =
     (Inl OverflowError, ?d)"
    by simp
  from ids f2 f3 a b show ?thesis by (intro conjI)
qed

text \<open>
  The claim as the spec words it fails on a user id beyond 64 bits: no account has that
  id, and the answer is not the not-found failure but the \<^verbatim>\<open>OverflowError\<close> of the bind.
\<close>

theorem purchase_user_not_found_counterexample:
  "users init_db = [] \<and>
   purchase_gold init_db ''2025-01-01T00:00:00'' 9223372036854775808 10 =
     (Inl OverflowError, init_db) \<and>
   fst (purchase_gold init_db ''2025-01-01T00:00:00'' 9223372036854775808 10) \<noteq>
     Inl (HTTPException 404 User_not_found)"
proof -
  have "get_user init_db 9223372036854775808 = Inl OverflowError"
    by (simp add: get_user_def fits_int64_def)
  then show ?thesis by (simp add: purchase_gold_def init_db_def)
qed

lemma users_update_others:
  "filter (\<lambda>r. user_id r \<noteq> uid) (users (update_user_gold_and_balance d uid g amt now)) =
   filter (\<lambda>r. user_id r \<noteq> uid) (users d)"
proof -
  have "filter (\<lambda>r. user_id r \<noteq> uid)
          (map (\<lambda>r::user_row. if user_id r = uid
                  then r\<lparr>balance := map_option (\<lambda>b. b - amt) (balance r),
                         gold_grams := gold_grams r + g\<rparr>
                  else r) xs) =
        filter (\<lambda>r. user_id r \<noteq> uid) xs" for xs
    by (induction xs) auto
  then show ?thesis by (simp add: update_user_gold_and_balance_def)
qed

lemma users_update_keys:
  "map user_id (users (update_user_gold_and_balance d uid g amt now)) = map user_id (users d) \<and>
   map name (users (update_user_gold_and_balance d uid g amt now)) = map name (users d) \<and>
   users_seq (update_user_gold_and_balance d uid g amt now) = users_seq d"
  by (simp add: update_user_gold_and_balance_def comp_def if_distrib cong: if_cong)

text \<open>
  Claim C10. A successful purchase for user \<open>uid\<close> leaves every other user's row as it
  was (the same row is found under every other id, and the rows of other ids are the same
  rows in the same order), changes no user id and no name and creates no account, and
  appends exactly one ledger row, owned by \<open>uid\<close>, after the rows that were there, which
  stay as they were.
\<close>

theorem purchase_frame:
  assumes "fst (purchase_gold d now uid amt) = Inr r"
  shows "(\<forall>v. v \<noteq> uid \<longrightarrow> get_user (snd (purchase_gold d now uid amt)) v = get_user d v) \<and>
         filter (\<lambda>x. user_id x \<noteq> uid) (users (snd (purchase_gold d now uid amt))) =
           filter (\<lambda>x. user_id x \<noteq> uid) (users d) \<and>
         map user_id (users (snd (purchase_gold d now uid amt))) = map user_id (users d) \<and>
         map name (users (snd (purchase_gold d now uid amt))) = map name (users d) \<and>
         users_seq (snd (purchase_gold d now uid amt)) = users_seq d \<and>
         (\<exists>p. purchases (snd (purchase_gold d now uid amt)) = purchases d @ [p] \<and>
              purchase_user_id p = uid)"
proof -
  from purchase_gold_Inr [OF assms] obtain u b
    where h: "get_user d uid = Inr (Some u)" "balance u = Some b" "0 < amt" "amt \<le> b"
    by blast
  let ?d' = "update_user_gold_and_balance d uid (round_ndigits (amt / 6000) 6) amt now"
  have e: "snd (purchase_gold d now uid amt) = ?d'"
    by (simp add: purchase_gold_success [OF h])
  have "\<forall>v. v \<noteq> uid \<longrightarrow> get_user ?d' v = get_user d v"
    by (simp add: get_user_update_other)
  moreover have "\<exists>p. purchases ?d' = purchases d @ [p] \<and> purchase_user_id p = uid"
    by (simp add: purchases_update)
  ultimately show ?thesis
    unfolding e using users_update_others [of uid d] users_update_keys [of d uid]
    by blast
qed

theorem purchase_frame_witness:
  "fst (purchase_gold (run init_db [Create_user ''asha'' (Some 100), Create_user ''ravi'' (Some 5)])
          ''2025-01-01T00:00:00'' 1 60) =
     Inr (Purchase_response ''success'' (Successfully_purchased 60 (1 / 100) 1) (60, 1 / 100)
            (Some \<lparr>user_id = 1, name = ''asha'', balance = Some 40, gold_grams = 1 / 100\<rparr>)
            [\<lparr>purchase_id = 1, purchase_user_id = 1, amount_inr = 60, grams = 1 / 100,
              timestamp = ''2025-01-01T00:00:00''\<rparr>]) \<and>
   get_user (snd (purchase_gold
        (run init_db [Create_user ''asha'' (Some 100), Create_user ''ravi'' (Some 5)])
        ''2025-01-01T00:00:00'' 1 60)) 2 =
     Inr (Some \<lparr>user_id = 2, name = ''ravi'', balance = Some 5, gold_grams = 0\<rparr>)"
proof -
  let ?d = "run init_db [Create_user ''asha'' (Some 100), Create_user ''ravi'' (Some 5)]"
  have h: "fst (purchase_gold ?d ''2025-01-01T00:00:00'' 1 60) =
     Inr (Purchase_response ''success'' (Successfully_purchased 60 (1 / 100) 1) (60, 1 / 100)
            (Some \<lparr>user_id = 1, name = ''asha'', balance = Some 40, gold_grams = 1 / 100\<rparr>)
            [\<lparr>purchase_id = 1, purchase_user_id = 1, amount_inr = 60, grams = 1 / 100,
              timestamp = ''2025-01-01T00:00:00''\<rparr>])"
    by code_simp
  have g: "get_user ?d 2 =
     Inr (Some \<lparr>user_id = 2, name = ''ravi'', balance = Some 5, gold_grams = 0\<rparr>)"
    by code_simp
  from purchase_frame [OF h]
  have "get_user (snd (purchase_gold ?d ''2025-01-01T00:00:00'' 1 60)) 2 = get_user ?d 2"
    by simp
  with h g show ?thesis by simp
qed

section \<open>The assistant\<close>

text \<open>
  Claim C9. The assistant returns the database it was given, for every input; and its
  answer depends on the query only through the classifier: two queries that classify
  alike (both gold-related or both not) get the same answer from the same database and
  user id, existing or not.
\<close>

theorem gold_assistant_reads_only:
  "snd (gold_assistant d uid q) = d \<and>
   (query_is_about_gold q1 = query_is_about_gold q2 \<longrightarrow>
      gold_assistant d uid q1 = gold_assistant d uid q2)"
  by (simp add: gold_assistant_def Let_def split: sum.splits option.splits)

theorem gold_assistant_reads_only_witness:
  "get_user (snd (create_user init_db ''asha'' (Some 100))) 1 =
     Inr (Some \<lparr>user_id = 1, name = ''asha'', balance = Some 100, gold_grams = 0\<rparr>) \<and>
   query_is_about_gold ''Should I buy gold?'' = query_is_about_gold ''is GOLD safe'' \<and>
   gold_assistant (snd (create_user init_db ''asha'' (Some 100))) 1 ''Should I buy gold?'' =
     gold_assistant (snd (create_user init_db ''asha'' (Some 100))) 1 ''is GOLD safe'' \<and>
   query_is_about_gold ''What's the weather?'' = query_is_about_gold ''hello'' \<and>
   gold_assistant (snd (create_user init_db ''asha'' (Some 100))) 1 ''What's the weather?'' =
     gold_assistant (snd (create_user init_db ''asha'' (Some 100))) 1 ''hello'' \<and>
   gold_assistant (snd (create_user init_db ''asha'' (Some 100))) 1 ''hello'' \<noteq>
     gold_assistant (snd (create_user init_db ''asha'' (Some 100))) 1 ''is GOLD safe''"
proof -
  let ?d = "snd (create_user init_db ''asha'' (Some 100))"
  have u: "get_user ?d 1 =
     Inr (Some \<lparr>user_id = 1, name = ''asha'', balance = Some 100, gold_grams = 0\<rparr>)"
    by code_simp
  have g1: "query_is_about_gold ''Should I buy gold?''" by code_simp
  have g2: "query_is_about_gold ''is GOLD safe''" by code_simp
  have n1: "\<not> query_is_about_gold ''What's the weather?''" by code_simp
  have n2: "\<not> query_is_about_gold ''hello''" by code_simp
  have a: "gold_assistant ?d 1 ''Should I buy gold?'' = gold_assistant ?d 1 ''is GOLD safe''"
    using gold_assistant_reads_only [of ?d 1 "''x''" "''Should I buy gold?''" "''is GOLD safe''"]
      g1 g2 by simp
  have b: "gold_assistant ?d 1 ''What's the weather?'' = gold_assistant ?d 1 ''hello''"
    using gold_assistant_reads_only [of ?d 1 "''x''" "''What's the weather?''" "''hello''"]
      n1 n2 by simp
  have c: "gold_assistant ?d 1 ''hello'' \<noteq> gold_assistant ?d 1 ''is GOLD safe''"
    using u g2 n2 by (simp add: gold_assistant_def)
  from u g1 g2 n1 n2 a b c show ?thesis by simp
qed

section \<open>Rounding\<close>

lemma py_round_nonneg: "0 \<le> x \<Longrightarrow> 0 \<le> py_round x"
proof -
  assume "0 \<le> x"
  then have "0 \<le> \<lfloor>x\<rfloor>" by simp
  then show ?thesis by (simp add: py_round_def Let_def)
qed

lemma round_ndigits_nonneg: "0 \<le> x \<Longrightarrow> 0 \<le> round_ndigits x n"
  by (simp add: round_ndigits_def py_round_nonneg)

section \<open>Runs\<close>

lemma find_Some_mem: "find P xs = Some r \<Longrightarrow> r \<in> set xs \<and> P r"
  by (induction xs) (auto split: if_splits)

lemma get_user_mem:
  "get_user d uid = Inr (Some u) \<Longrightarrow> u \<in> set (users d) \<and> user_id u = uid"
  using find_Some_mem [of "\<lambda>r. user_id r = uid" "users d" u]
  by (simp add: get_user_Inr_iff)

lemma find_unique_key:
  assumes "distinct (map user_id xs)" and "find (\<lambda>x. user_id x = k) xs = Some u"
    and "r \<in> set xs" and "user_id r = k"
  shows "r = u"
  using assms
proof (induction xs)
  case Nil
  then show ?case by simp
next
  case (Cons x xs)
  show ?case
  proof (cases "user_id x = k")
    case True
    with Cons.prems have "u = x" by simp
    moreover from True Cons.prems have "r = x" by (auto simp: image_iff)
    ultimately show ?thesis by simp
  next
    case False
    with Cons.prems have "find (\<lambda>x. user_id x = k) xs = Some u" "r \<in> set xs" "distinct (map user_id xs)"
      by auto
    with Cons.IH Cons.prems(4) show ?thesis by blast
  qed
qed

lemma purchase_gold_snd:
  "snd (purchase_gold d now uid amt) =
     (case fst (purchase_gold d now uid amt) of
        Inl e \<Rightarrow> d
      | Inr r \<Rightarrow> update_user_gold_and_balance d uid (round_ndigits (amt / 6000) 6) amt now)"
proof (cases "\<exists>u b. get_user d uid = Inr (Some u) \<and> balance u = Some b \<and> 0 < amt \<and> amt \<le> b")
  case True
  then obtain u b
    where h: "get_user d uid = Inr (Some u)" "balance u = Some b" "0 < amt" "amt \<le> b"
    by blast
  show ?thesis by (simp add: purchase_gold_success [OF h])
next
  case False
  have "\<exists>e. fst (purchase_gold d now uid amt) = Inl e"
  proof (cases "fst (purchase_gold d now uid amt)")
    case (Inl e)
    then show ?thesis by blast
  next
    case (Inr r)
    from purchase_gold_Inr [OF Inr] False show ?thesis by blast
  qed
  then obtain e where e: "fst (purchase_gold d now uid amt) = Inl e" by blast
  have "snd (purchase_gold d now uid amt) = d"
  proof (cases "get_user d uid")
    case (Inl e')
    then show ?thesis by (simp add: purchase_gold_def)
  next
    case (Inr x)
    show ?thesis
    proof (cases x)
      case None
      with Inr show ?thesis by (simp add: purchase_gold_def)
    next
      case (Some u)
      show ?thesis
      proof (cases "balance u")
        case None
        with Some Inr show ?thesis by (simp add: purchase_gold_def)
      next
        case b: (Some b)
        with Some Inr False have "amt \<le> 0 \<or> b < amt" by auto
        with b Some Inr show ?thesis by (auto simp: purchase_gold_def)
      qed
    qed
  qed
  with e show ?thesis by simp
qed

lemma handle_snd:
  "snd (handle d r) = d \<or>
   (\<exists>nm dep. r = Create_user nm dep \<and> snd (handle d r) = snd (create_user d nm dep)) \<or>
   (\<exists>now uid amt u b. r = Purchase_gold now uid amt \<and> get_user d uid = Inr (Some u) \<and>
      balance u = Some b \<and> 0 < amt \<and> amt \<le> b \<and>
      snd (handle d r) =
        update_user_gold_and_balance d uid (round_ndigits (amt / 6000) 6) amt now)"
proof (cases r)
  case (Create_user nm dep)
  then show ?thesis by simp
next
  case (Get_user v)
  then show ?thesis by (simp add: get_user_endpoint_def split: sum.splits option.splits)
next
  case (Gold_assistant v q)
  then show ?thesis by (simp add: gold_assistant_def Let_def split: sum.splits option.splits)
next
  case (Purchase_gold now uid amt)
  show ?thesis
  proof (cases "fst (purchase_gold d now uid amt)")
    case (Inl e)
    with Purchase_gold show ?thesis by (simp add: purchase_gold_snd)
  next
    case (Inr x)
    from purchase_gold_Inr [OF Inr] Inr Purchase_gold show ?thesis
      by (auto simp: purchase_gold_snd)
  qed
next
  case Root
  then show ?thesis by (simp add: root_def)
qed

lemma wf_init_db: "wf init_db"
  by (simp add: wf_def init_db_def)

lemma wf_create_user:
  assumes "wf d"
  shows "wf (snd (create_user d nm dep))"
proof -
  have u: "users (snd (create_user d nm dep)) =
             users d @ [\<lparr>user_id = users_seq d + 1, name = nm, balance = dep, gold_grams = 0\<rparr>]"
    and s: "users_seq (snd (create_user d nm dep)) = users_seq d + 1"
    and p: "purchases (snd (create_user d nm dep)) = purchases d"
    and q: "purchases_seq (snd (create_user d nm dep)) = purchases_seq d"
    by (simp_all add: create_user_def Let_def)
  from assms have "users_seq d + 1 \<notin> set (map user_id (users d))"
    unfolding wf_def by fastforce
  with assms show ?thesis
    unfolding wf_def u s p q by fastforce
qed

lemma wf_update:
  assumes "wf d" and "uid \<in> set (map user_id (users d))"
  shows "wf (update_user_gold_and_balance d uid g amt now)"
proof -
  let ?d' = "update_user_gold_and_balance d uid g amt now"
  have k: "map user_id (users ?d') = map user_id (users d)" and s: "users_seq ?d' = users_seq d"
    using users_update_keys [of d uid g amt now] by simp_all
  have q: "purchases_seq ?d' = purchases_seq d + 1"
    by (simp add: update_user_gold_and_balance_def)
  from assms(1) have lt: "\<forall>x \<in> set (purchases d). purchase_id x < purchases_seq d + 1"
    unfolding wf_def by fastforce
  have srt: "sorted_wrt (<) (map purchase_id (purchases ?d'))"
    using assms(1) lt unfolding wf_def purchases_update
    by (simp add: sorted_wrt_append)
  have own: "\<forall>p \<in> set (purchases ?d').
        purchase_id p \<le> purchases_seq ?d' \<and> purchase_user_id p \<in> set (map user_id (users ?d'))"
    using assms unfolding wf_def k q purchases_update by fastforce
  from assms(1) srt own show ?thesis
    unfolding wf_def k s by simp
qed

lemma wf_handle: "wf d \<Longrightarrow> wf (snd (handle d r))"
  using handle_snd [of d r]
  by (elim disjE exE conjE) (auto simp: wf_create_user intro!: wf_update dest: get_user_mem)

lemma wf_run: "wf d \<Longrightarrow> wf (run d rs)"
  by (induction rs arbitrary: d) (simp_all add: wf_handle)

lemma balance_update_nonneg:
  assumes "wf d" and "get_user d uid = Inr (Some u)" and "balance u = Some b" and "amt \<le> b"
    and "\<forall>x \<in> set (users d). \<forall>c. balance x = Some c \<longrightarrow> 0 \<le> c"
  shows "\<forall>x \<in> set (users (update_user_gold_and_balance d uid g amt now)).
           \<forall>c. balance x = Some c \<longrightarrow> 0 \<le> c"
proof (intro ballI allI impI)
  fix x c
  assume x: "x \<in> set (users (update_user_gold_and_balance d uid g amt now))"
    and c: "balance x = Some c"
  from x obtain y where y: "y \<in> set (users d)"
    and xy: "x = (if user_id y = uid
                  then y\<lparr>balance := map_option (\<lambda>b. b - amt) (balance y),
                         gold_grams := gold_grams y + g\<rparr>
                  else y)"
    by (auto simp: update_user_gold_and_balance_def)
  show "0 \<le> c"
  proof (cases "user_id y = uid")
    case True
    from assms(1) have "distinct (map user_id (users d))" by (simp add: wf_def)
    moreover from assms(2) have "find (\<lambda>x. user_id x = uid) (users d) = Some u"
      by (simp add: get_user_Inr_iff)
    ultimately have "y = u" using y True by (rule find_unique_key)
    with True xy c assms(3,4) show ?thesis by auto
  next
    case False
    with xy c y assms(5) show ?thesis by auto
  qed
qed

lemma balances_handle:
  assumes "wf d" and "deposit_nonneg r"
    and "\<forall>x \<in> set (users d). \<forall>c. balance x = Some c \<longrightarrow> 0 \<le> c"
  shows "\<forall>x \<in> set (users (snd (handle d r))). \<forall>c. balance x = Some c \<longrightarrow> 0 \<le> c"
  using handle_snd [of d r]
proof (elim disjE exE conjE)
  assume "snd (handle d r) = d"
  with assms(3) show ?thesis by simp
next
  fix nm dep
  assume r: "r = Create_user nm dep" and s: "snd (handle d r) = snd (create_user d nm dep)"
  have "users (snd (create_user d nm dep)) =
          users d @ [\<lparr>user_id = users_seq d + 1, name = nm, balance = dep, gold_grams = 0\<rparr>]"
    by (simp add: create_user_def Let_def)
  with assms(2,3) r show ?thesis unfolding s by (cases dep) auto
next
  fix now uid amt u b
  assume "get_user d uid = Inr (Some u)" "balance u = Some b" "amt \<le> b"
    and s: "snd (handle d r) =
        update_user_gold_and_balance d uid (round_ndigits (amt / 6000) 6) amt now"
  with assms(1,3) show ?thesis
    unfolding s by (intro balance_update_nonneg)
qed

lemma balances_run:
  assumes "wf d" and "list_all deposit_nonneg rs"
    and "\<forall>x \<in> set (users d). \<forall>c. balance x = Some c \<longrightarrow> 0 \<le> c"
  shows "\<forall>x \<in> set (users (run d rs)). \<forall>c. balance x = Some c \<longrightarrow> 0 \<le> c"
  using assms
proof (induction rs arbitrary: d)
  case Nil
  then show ?case by simp
next
  case (Cons r rs)
  from Cons.prems have "wf (snd (handle d r))" by (simp add: wf_handle)
  moreover from Cons.prems have "list_all deposit_nonneg rs" by simp
  moreover from Cons.prems
  have "\<forall>x \<in> set (users (snd (handle d r))). \<forall>c. balance x = Some c \<longrightarrow> 0 \<le> c"
    by (intro balances_handle) simp_all
  ultimately show ?case using Cons.IH [of "snd (handle d r)"] by simp
qed

text \<open>
  Claim C2, as the code has it. User creation stores the deposit it is given, unchecked;
  only the purchase guards the balance. From the empty database, after any sequence of
  requests whose create-user deposits are not negative (a number at least zero, or null),
  no account has a balance below zero.
\<close>

theorem balances_never_negative:
  assumes "list_all deposit_nonneg rs"
  shows "\<forall>x \<in> set (users (run init_db rs)). \<forall>c. balance x = Some c \<longrightarrow> 0 \<le> c"
  using wf_init_db assms by (rule balances_run) (simp add: init_db_def)

theorem balances_never_negative_witness:
  "list_all deposit_nonneg
     [Create_user ''asha'' (Some 100), Purchase_gold ''2025-01-01T00:00:00'' 1 60,
      Purchase_gold ''2025-01-01T00:00:01'' 1 60, Purchase_gold ''2025-01-01T00:00:02'' 1 30] \<and>
   map balance (users (run init_db
     [Create_user ''asha'' (Some 100), Purchase_gold ''2025-01-01T00:00:00'' 1 60,
      Purchase_gold ''2025-01-01T00:00:01'' 1 60, Purchase_gold ''2025-01-01T00:00:02'' 1 30])) =
     [Some 10] \<and>
   (0::rat) \<le> 10"
proof -
  let ?rs = "[Create_user ''asha'' (Some 100), Purchase_gold ''2025-01-01T00:00:00'' 1 60,
      Purchase_gold ''2025-01-01T00:00:01'' 1 60, Purchase_gold ''2025-01-01T00:00:02'' 1 30]"
  have h: "list_all deposit_nonneg ?rs" by simp
  have e: "map balance (users (run init_db ?rs)) = [Some 10]" by code_simp
  from balances_never_negative [OF h]
  have "\<forall>b \<in> set (map balance (users (run init_db ?rs))). \<forall>c. b = Some c \<longrightarrow> 0 \<le> c"
    by simp
  then have "(0::rat) \<le> 10" unfolding e by simp
  with h e show ?thesis by (intro conjI)
qed

text \<open>
  The claim as the spec words it fails at user creation: a negative deposit is stored as
  the balance.
\<close>

theorem balances_never_negative_counterexample:
  "fst (create_user init_db ''asha'' (Some (- 5))) =
     Inr (Create_user_response ''success'' 1 ''asha'' (Some (- 5))) \<and>
   users (snd (create_user init_db ''asha'' (Some (- 5)))) =
     [\<lparr>user_id = 1, name = ''asha'', balance = Some (- 5), gold_grams = 0\<rparr>] \<and>
   (- 5 :: rat) < 0"
  by (simp add: create_user_def init_db_def)

lemma gold_update_nonneg:
  assumes "0 \<le> g" and "\<forall>x \<in> set (users d). 0 \<le> gold_grams x"
  shows "\<forall>x \<in> set (users (update_user_gold_and_balance d uid g amt now)). 0 \<le> gold_grams x"
  using assms by (auto simp: update_user_gold_and_balance_def)

lemma gold_handle:
  assumes "\<forall>x \<in> set (users d). 0 \<le> gold_grams x"
  shows "\<forall>x \<in> set (users (snd (handle d r))). 0 \<le> gold_grams x"
  using handle_snd [of d r]
proof (elim disjE exE conjE)
  assume "snd (handle d r) = d"
  with assms show ?thesis by simp
next
  fix nm dep
  assume s: "snd (handle d r) = snd (create_user d nm dep)"
  have "users (snd (create_user d nm dep)) =
          users d @ [\<lparr>user_id = users_seq d + 1, name = nm, balance = dep, gold_grams = 0\<rparr>]"
    by (simp add: create_user_def Let_def)
  with assms show ?thesis unfolding s by auto
next
  fix now uid amt
  assume "0 < (amt::rat)"
    and s: "snd (handle d r) =
        update_user_gold_and_balance d uid (round_ndigits (amt / 6000) 6) amt now"
  then have "0 \<le> round_ndigits (amt / 6000) 6" by (intro round_ndigits_nonneg) simp
  from this assms show ?thesis unfolding s by (rule gold_update_nonneg)
qed

lemma gold_run:
  assumes "\<forall>x \<in> set (users d). 0 \<le> gold_grams x"
  shows "\<forall>x \<in> set (users (run d rs)). 0 \<le> gold_grams x"
  using assms
proof (induction rs arbitrary: d)
  case Nil
  then show ?case by simp
next
  case (Cons r rs)
  from Cons.prems have "\<forall>x \<in> set (users (snd (handle d r))). 0 \<le> gold_grams x"
    by (rule gold_handle)
  then show ?case using Cons.IH [of "snd (handle d r)"] by simp
qed

lemma gold_update_pointwise:
  assumes "0 \<le> g"
  shows "list_all2 (\<lambda>x y. user_id x = user_id y \<and> gold_grams x \<le> gold_grams y)
           (users d) (users (update_user_gold_and_balance d uid g amt now))"
  using assms
  by (simp add: update_user_gold_and_balance_def list_all2_map2 list_all2_same)

text \<open>
  Claim C8, as the code has it. In every state reached from the empty database by any
  sequence of requests every account's gold is at least zero; and gold never decreases
  via purchases: a purchase request, whatever it answers, leaves every account with at
  least the gold it had, and a successful one leaves the buyer with at least the gold the
  buyer had. The gold need not grow: the grams are rounded to six decimals.
\<close>

theorem gold_grams_never_decrease:
  "(\<forall>x \<in> set (users (run init_db rs)). 0 \<le> gold_grams x) \<and>
   list_all2 (\<lambda>x y. user_id x = user_id y \<and> gold_grams x \<le> gold_grams y)
     (users d) (users (snd (purchase_gold d now uid amt))) \<and>
   (get_user d uid = Inr (Some u) \<and> fst (purchase_gold d now uid amt) = Inr r \<longrightarrow>
      (\<exists>u'. get_user (snd (purchase_gold d now uid amt)) uid = Inr (Some u') \<and>
            gold_grams u \<le> gold_grams u'))"
proof (intro conjI impI)
  show "\<forall>x \<in> set (users (run init_db rs)). 0 \<le> gold_grams x"
    by (rule gold_run) (simp add: init_db_def)
next
  show "list_all2 (\<lambda>x y. user_id x = user_id y \<and> gold_grams x \<le> gold_grams y)
     (users d) (users (snd (purchase_gold d now uid amt)))"
  proof (cases "fst (purchase_gold d now uid amt)")
    case (Inl e)
    then show ?thesis by (simp add: purchase_gold_snd list_all2_same)
  next
    case (Inr x)
    from purchase_gold_Inr [OF Inr] have "0 < amt" by blast
    then have "0 \<le> round_ndigits (amt / 6000) 6" by (intro round_ndigits_nonneg) simp
    then show ?thesis using Inr by (simp add: purchase_gold_snd gold_update_pointwise)
  qed
next
  assume a: "get_user d uid = Inr (Some u) \<and> fst (purchase_gold d now uid amt) = Inr r"
  then have g: "get_user d uid = Inr (Some u)"
    and ok: "fst (purchase_gold d now uid amt) = Inr r"
    by simp_all
  from purchase_gold_Inr [OF ok] g obtain b
    where h: "balance u = Some b" "0 < amt" "amt \<le> b"
    by auto
  let ?g = "round_ndigits (amt / 6000) 6"
  let ?u' = "u\<lparr>balance := Some (b - amt), gold_grams := gold_grams u + ?g\<rparr>"
  have s: "snd (purchase_gold d now uid amt) = update_user_gold_and_balance d uid ?g amt now"
    by (simp add: purchase_gold_success [OF g h])
  have 1: "get_user (snd (purchase_gold d now uid amt)) uid = Inr (Some ?u')"
    unfolding s using get_user_update_same [OF g] h(1) by simp
  from h(2) have "0 \<le> ?g" by (intro round_ndigits_nonneg) simp
  then have "gold_grams u \<le> gold_grams ?u'" by simp
  with 1 show "\<exists>u'. get_user (snd (purchase_gold d now uid amt)) uid = Inr (Some u') \<and>
            gold_grams u \<le> gold_grams u'"
    by blast
qed

theorem gold_grams_never_decrease_witness:
  "get_user (snd (create_user init_db ''asha'' (Some 100))) 1 =
     Inr (Some \<lparr>user_id = 1, name = ''asha'', balance = Some 100, gold_grams = 0\<rparr>) \<and>
   fst (purchase_gold (snd (create_user init_db ''asha'' (Some 100))) ''2025-01-01T00:00:00'' 1 60) =
     Inr (Purchase_response ''success'' (Successfully_purchased 60 (1 / 100) 1) (60, 1 / 100)
            (Some \<lparr>user_id = 1, name = ''asha'', balance = Some 40, gold_grams = 1 / 100\<rparr>)
            [\<lparr>purchase_id = 1, purchase_user_id = 1, amount_inr = 60, grams = 1 / 100,
              timestamp = ''2025-01-01T00:00:00''\<rparr>]) \<and>
   (\<exists>u'. get_user (snd (purchase_gold (snd (create_user init_db ''asha'' (Some 100)))
                ''2025-01-01T00:00:00'' 1 60)) 1 = Inr (Some u') \<and>
         0 \<le> gold_grams u') \<and>
   map gold_grams (users (run init_db
       [Create_user ''asha'' (Some 100), Purchase_gold ''2025-01-01T00:00:00'' 1 60])) =
     [1 / 100] \<and>
   (0::rat) \<le> 1 / 100"
proof -
  let ?d = "snd (create_user init_db ''asha'' (Some 100))"
  let ?u = "\<lparr>user_id = 1, name = ''asha'', balance = Some 100, gold_grams = 0\<rparr>"
  have h1: "get_user ?d 1 = Inr (Some ?u)" by code_simp
  have h2: "fst (purchase_gold ?d ''2025-01-01T00:00:00'' 1 60) =
     Inr (Purchase_response ''success'' (Successfully_purchased 60 (1 / 100) 1) (60, 1 / 100)
            (Some \<lparr>user_id = 1, name = ''asha'', balance = Some 40, gold_grams = 1 / 100\<rparr>)
            [\<lparr>purchase_id = 1, purchase_user_id = 1, amount_inr = 60, grams = 1 / 100,
              timestamp = ''2025-01-01T00:00:00''\<rparr>])"
    by code_simp
  note th = gold_grams_never_decrease [of
      "[Create_user ''asha'' (Some 100), Purchase_gold ''2025-01-01T00:00:00'' 1 60]"
      ?d "''2025-01-01T00:00:00''" 1 60 ?u]
  from th h1 h2
  have "\<exists>u'. get_user (snd (purchase_gold ?d ''2025-01-01T00:00:00'' 1 60)) 1 = Inr (Some u') \<and>
         0 \<le> gold_grams u'"
    by auto
  moreover have e: "map gold_grams (users (run init_db
       [Create_user ''asha'' (Some 100), Purchase_gold ''2025-01-01T00:00:00'' 1 60])) =
     [1 / 100]"
    by code_simp
  moreover from th
  have "\<forall>x \<in> set (users (run init_db
       [Create_user ''asha'' (Some 100), Purchase_gold ''2025-01-01T00:00:00'' 1 60])).
      0 \<le> gold_grams x"
    by (rule conjunct1)
  then have "\<forall>g \<in> set (map gold_grams (users (run init_db
       [Create_user ''asha'' (Some 100), Purchase_gold ''2025-01-01T00:00:00'' 1 60]))).
      0 \<le> g"
    by simp
  then have "(0::rat) \<le> 1 / 100" unfolding e by simp
  ultimately show ?thesis using h1 h2 by (intro conjI)
qed

text \<open>
  The claim as the spec words it fails on a small amount: a purchase of 0.001 rupees
  succeeds, is debited and recorded, and buys \<open>round(0.001 / 6000, 6) = 0\<close> grams, so the
  gold is not strictly larger afterwards.
\<close>

theorem gold_grams_never_decrease_counterexample:
  "fst (purchase_gold (snd (create_user init_db ''asha'' (Some 100)))
          ''2025-01-01T00:00:00'' 1 (1 / 1000)) =
     Inr (Purchase_response ''success'' (Successfully_purchased (1 / 1000) 0 1) (1 / 1000, 0)
            (Some \<lparr>user_id = 1, name = ''asha'', balance = Some (99999 / 1000), gold_grams = 0\<rparr>)
            [\<lparr>purchase_id = 1, purchase_user_id = 1, amount_inr = 1 / 1000, grams = 0,
              timestamp = ''2025-01-01T00:00:00''\<rparr>]) \<and>
   map gold_grams (users (snd (create_user init_db ''asha'' (Some 100)))) = [0] \<and>
   map gold_grams (users (snd (purchase_gold (snd (create_user init_db ''asha'' (Some 100)))
          ''2025-01-01T00:00:00'' 1 (1 / 1000)))) = [0]"
  by code_simp

section \<open>The ledger\<close>

lemma ledger_handle: "ledger_of (snd (handle d r)) uid = ledger_of d uid @ purchase_of d r uid"
proof (cases r)
  case (Create_user nm dep)
  then show ?thesis by (simp add: ledger_of_def create_user_def Let_def)
next
  case (Get_user v)
  then show ?thesis by (simp add: get_user_endpoint_def split: sum.splits option.splits)
next
  case (Gold_assistant v q)
  then show ?thesis by (simp add: gold_assistant_def Let_def split: sum.splits option.splits)
next
  case (Purchase_gold now v amt)
  show ?thesis
  proof (cases "fst (purchase_gold d now v amt)")
    case (Inl e)
    with Purchase_gold show ?thesis by (simp add: purchase_gold_snd)
  next
    case (Inr x)
    with Purchase_gold show ?thesis
      by (simp add: purchase_gold_snd ledger_of_def purchases_update GOLD_RATE_PER_GRAM_def)
  qed
next
  case Root
  then show ?thesis by (simp add: root_def)
qed

lemma ledger_run: "ledger_of (run d rs) uid = ledger_of d uid @ successes d rs uid"
  by (induction rs arbitrary: d) (simp_all add: ledger_handle)

lemma purchases_handle: "\<exists>new. purchases (snd (handle d r)) = purchases d @ new"
  using handle_snd [of d r]
  by (elim disjE exE conjE) (auto simp: create_user_def Let_def purchases_update)

lemma purchases_run: "\<exists>new. purchases (run d rs) = purchases d @ new"
proof (induction rs arbitrary: d)
  case Nil
  show ?case by simp
next
  case (Cons r rs)
  from purchases_handle [of d r] obtain n1
    where 1: "purchases (snd (handle d r)) = purchases d @ n1" by blast
  from Cons.IH [of "snd (handle d r)"] obtain n2
    where 2: "purchases (run (snd (handle d r)) rs) = purchases (snd (handle d r)) @ n2" by blast
  from 1 2 have "purchases (run d (r # rs)) = purchases d @ (n1 @ n2)" by simp
  then show ?case by blast
qed

lemma get_purchases_wf:
  assumes "wf d"
  shows "get_purchases_for_user d uid = rev (filter (\<lambda>p. purchase_user_id p = uid) (purchases d))"
proof -
  from assms have "sorted_wrt (<) (map purchase_id (purchases d))" by (simp add: wf_def)
  then have "sorted (map purchase_id (purchases d))" by (rule strict_sorted_imp_sorted)
  then have "sorted (map purchase_id (filter (\<lambda>p. purchase_user_id p = uid) (purchases d)))"
    by (rule sorted_filter)
  then show ?thesis by (simp add: get_purchases_for_user_def sort_key_id_if_sorted)
qed

lemma get_purchases_ids_wf:
  assumes "wf d"
  shows "sorted_wrt (>) (map purchase_id (get_purchases_for_user d uid))"
proof -
  from assms have "sorted_wrt (<) (map purchase_id (purchases d))" by (simp add: wf_def)
  then have "sorted_wrt (\<lambda>p q. purchase_id p < purchase_id q) (purchases d)"
    by (simp add: sorted_wrt_map)
  then have "sorted_wrt (\<lambda>p q. purchase_id p < purchase_id q)
               (filter (\<lambda>p. purchase_user_id p = uid) (purchases d))"
    by (rule sorted_wrt_filter)
  then show ?thesis
    by (simp add: get_purchases_wf [OF assms] sorted_wrt_map sorted_wrt_rev rev_map [symmetric])
qed

lemma ledger_fresh:
  assumes "wf d"
  shows "ledger_of (snd (create_user d nm dep)) (users_seq d + 1) = []"
proof -
  have "purchase_user_id p \<noteq> users_seq d + 1" if "p \<in> set (purchases d)" for p
  proof -
    from assms that have "purchase_user_id p \<in> set (map user_id (users d))"
      by (simp add: wf_def)
    with assms have "purchase_user_id p \<le> users_seq d" unfolding wf_def by blast
    then show ?thesis by simp
  qed
  then have "filter (\<lambda>p. purchase_user_id p = users_seq d + 1) (purchases d) = []"
    by (simp add: filter_empty_conv)
  then show ?thesis by (simp add: ledger_of_def create_user_def Let_def)
qed

text \<open>
  Claim C6. Let user \<open>uid\<close> be created fresh, by a create-user request in a state reached
  from the empty database, and let any requests follow. Then the purchases listed for
  \<open>uid\<close> are as many as the successful purchases made for \<open>uid\<close> since; they come newest
  first (purchase ids strictly decreasing), so that read backwards, oldest first, the
  i-th record carries the amount of the i-th successful purchase and the grams computed
  for it. No request changes or removes a ledger row: after one request, and after any
  run, the ledger is the old ledger followed by new rows.
\<close>

theorem ledger_append_only:
  assumes "d0 = run init_db rs0"
    and "create_user d0 nm dep = (Inr (Create_user_response st uid nm' dep'), d)"
  shows "map (\<lambda>p. (amount_inr p, grams p)) (get_purchases_for_user (run d rs) uid) =
           rev (successes d rs uid) \<and>
         length (get_purchases_for_user (run d rs) uid) = length (successes d rs uid) \<and>
         sorted_wrt (>) (map purchase_id (get_purchases_for_user (run d rs) uid)) \<and>
         (\<exists>new. purchases (snd (handle e r)) = purchases e @ new) \<and>
         (\<exists>new. purchases (run e rs') = purchases e @ new)"
proof -
  from assms(1) have w0: "wf d0" by (simp add: wf_run wf_init_db)
  from assms(2) have d: "d = snd (create_user d0 nm dep)" by simp
  from assms(2) have "fst (create_user d0 nm dep) = Inr (Create_user_response st uid nm' dep')"
    by simp
  then have u: "uid = users_seq d0 + 1" by (simp add: create_user_def Let_def)
  from w0 have wd: "wf d" unfolding d by (rule wf_create_user)
  then have wr: "wf (run d rs)" by (rule wf_run)
  have f: "ledger_of d uid = []" unfolding u d using w0 by (rule ledger_fresh)
  have "map (\<lambda>p. (amount_inr p, grams p)) (get_purchases_for_user (run d rs) uid) =
          rev (ledger_of (run d rs) uid)"
    by (simp add: get_purchases_wf [OF wr] ledger_of_def rev_map)
  also have "\<dots> = rev (successes d rs uid)" by (simp add: ledger_run f)
  finally have 1: "map (\<lambda>p. (amount_inr p, grams p)) (get_purchases_for_user (run d rs) uid) =
           rev (successes d rs uid)" .
  from arg_cong [OF 1, of length]
  have 2: "length (get_purchases_for_user (run d rs) uid) = length (successes d rs uid)"
    by simp
  from wr have 3: "sorted_wrt (>) (map purchase_id (get_purchases_for_user (run d rs) uid))"
    by (rule get_purchases_ids_wf)
  from 1 2 3 purchases_handle [of e r] purchases_run [of e rs'] show ?thesis
    by (intro conjI)
qed


theorem ledger_append_only_witness:
  "create_user (run init_db [Create_user ''ravi'' (Some 5)]) ''asha'' (Some 100) =
     (Inr (Create_user_response ''success'' 2 ''asha'' (Some 100)),
      run init_db [Create_user ''ravi'' (Some 5), Create_user ''asha'' (Some 100)]) \<and>
   successes (run init_db [Create_user ''ravi'' (Some 5), Create_user ''asha'' (Some 100)])
     [Purchase_gold ''2025-01-01T00:00:00'' 2 60, Purchase_gold ''2025-01-01T00:00:01'' 2 60,
      Purchase_gold ''2025-01-01T00:00:02'' 1 3, Get_user 2,
      Purchase_gold ''2025-01-01T00:00:03'' 2 30] 2 =
     [(60, 1 / 100), (30, 1 / 200)] \<and>
   map (\<lambda>p. (amount_inr p, grams p))
     (get_purchases_for_user
        (run (run init_db [Create_user ''ravi'' (Some 5), Create_user ''asha'' (Some 100)])
           [Purchase_gold ''2025-01-01T00:00:00'' 2 60, Purchase_gold ''2025-01-01T00:00:01'' 2 60,
            Purchase_gold ''2025-01-01T00:00:02'' 1 3, Get_user 2,
            Purchase_gold ''2025-01-01T00:00:03'' 2 30]) 2) =
     [(30, 1 / 200), (60, 1 / 100)]"
proof -
  let ?e = "run init_db [Create_user ''ravi'' (Some 5)]"
  let ?d = "run init_db [Create_user ''ravi'' (Some 5), Create_user ''asha'' (Some 100)]"
  let ?rs = "[Purchase_gold ''2025-01-01T00:00:00'' 2 60, Purchase_gold ''2025-01-01T00:00:01'' 2 60,
      Purchase_gold ''2025-01-01T00:00:02'' 1 3, Get_user 2,
      Purchase_gold ''2025-01-01T00:00:03'' 2 30]"
  have h: "create_user ?e ''asha'' (Some 100) =
     (Inr (Create_user_response ''success'' 2 ''asha'' (Some 100)), ?d)"
    by (simp add: create_user_def init_db_def Let_def)
  have s: "successes ?d ?rs 2 = [(60, 1 / 100), (30, 1 / 200)]" by code_simp
  from ledger_append_only [OF refl h, of ?rs]
  have "map (\<lambda>p. (amount_inr p, grams p)) (get_purchases_for_user (run ?d ?rs) 2) =
          rev (successes ?d ?rs 2)"
    by (rule conjunct1)
  with s have "map (\<lambda>p. (amount_inr p, grams p)) (get_purchases_for_user (run ?d ?rs) 2) =
     [(30, 1 / 200), (60, 1 / 100)]"
    by simp
  with h s show ?thesis by (intro conjI)
qed

end
